theory Spec2Isabelle
  imports Main "HOL-Library.Sublist" "HOL-Library.Multiset"
begin

section \<open>Python values used by check-services.py\<close>

text \<open>
  A Python \<open>str\<close> is a sequence of Unicode code points; \<open>len\<close>, \<open>find\<close> and slicing
  count code points. A string is therefore a list of code points, and an ASCII literal
  of the source is written \<open>ascii ''...''\<close>. The three emoji of the source are given by
  their code points.
\<close>

type_synonym str = "nat list"

definition ascii :: "string \<Rightarrow> str" where
  "ascii = map of_char"

definition onion :: nat where "onion = 0x1F9C5"
definition check_mark :: nat where "check_mark = 0x2705"
definition cross_mark :: nat where "cross_mark = 0x274C"
definition clipboard :: nat where "clipboard = 0x1F4CB"
definition memo :: nat where "memo = 0x1F4DD"

text \<open>
  A row of \<open>csv.DictReader\<close> is a dictionary from column names to values. A value is a
  string, or \<open>None\<close> when the row is shorter than the header (the reader's \<open>restval\<close>).
  The surplus fields of a row longer than the header are stored under the key \<open>None\<close>,
  which the program never reads; they are left out.
\<close>

datatype pyval = Str str | NoneV

type_synonym service = "str \<rightharpoonup> pyval"

text \<open>\<open>d.get(k, default)\<close>\<close>

definition dict_get :: "service \<Rightarrow> str \<Rightarrow> pyval \<Rightarrow> pyval" where
  "dict_get d k dflt = (case d k of None \<Rightarrow> dflt | Some v \<Rightarrow> v)"

text \<open>\<open>{v}\<close> inside an f-string, and the truth value of \<open>v\<close> in \<open>if v:\<close>\<close>

definition fmt :: "pyval \<Rightarrow> str" where
  "fmt v = (case v of Str s \<Rightarrow> s | NoneV \<Rightarrow> ascii ''None'')"

definition truthy :: "pyval \<Rightarrow> bool" where
  "truthy v = (case v of Str s \<Rightarrow> s \<noteq> [] | NoneV \<Rightarrow> False)"

text \<open>\<open>str(n)\<close> for a list length \<open>n\<close>\<close>

fun str_of_nat :: "nat \<Rightarrow> str" where
  "str_of_nat n = (if n < 10 then [48 + n] else str_of_nat (n div 10) @ [48 + n mod 10])"

declare str_of_nat.simps [simp del]

text \<open>\<open>s.startswith(p)\<close>\<close>

definition startswith :: "str \<Rightarrow> str \<Rightarrow> bool" where
  "startswith s p = prefix p s"

text \<open>
  \<open>find_first sub s\<close> is the lowest offset at which \<open>sub\<close> occurs in \<open>s\<close>.
  \<open>py_find s sub start\<close> is \<open>s.find(sub, start)\<close>: the lowest index at or after \<open>start\<close>
  where \<open>sub\<close> occurs, and \<open>-1\<close> when there is none. \<open>contains s sub\<close> is \<open>sub in s\<close>.
\<close>

fun find_first :: "'a list \<Rightarrow> 'a list \<Rightarrow> nat option" where
  "find_first sub [] = (if sub = [] then Some 0 else None)"
| "find_first sub (c # cs) =
     (if prefix sub (c # cs) then Some 0 else map_option Suc (find_first sub cs))"

definition py_find :: "str \<Rightarrow> str \<Rightarrow> int \<Rightarrow> int" where
  "py_find s sub start =
     (let i = (if start < 0 then max 0 (int (length s) + start) else start)
      in if int (length s) < i then - 1
         else (case find_first sub (drop (nat i) s) of
                 None \<Rightarrow> - 1
               | Some k \<Rightarrow> i + int k))"

definition contains :: "str \<Rightarrow> str \<Rightarrow> bool" where
  "contains s sub = (find_first sub s \<noteq> None)"

text \<open>Slices \<open>s[:i]\<close> and \<open>s[i:]\<close>, with Python's treatment of negative and large \<open>i\<close>.\<close>

definition slice_index :: "str \<Rightarrow> int \<Rightarrow> nat" where
  "slice_index s i =
     (if i < 0 then nat (max 0 (int (length s) + i)) else min (nat i) (length s))"

definition slice_upto :: "str \<Rightarrow> int \<Rightarrow> str" where
  "slice_upto s i = take (slice_index s i) s"

definition slice_from :: "str \<Rightarrow> int \<Rightarrow> str" where
  "slice_from s i = drop (slice_index s i) s"

section \<open>The environment of a run\<close>

text \<open>
  Exceptions that reach the program: from \<open>open\<close>, from the attribute lookup
  \<open>url.startswith\<close> on \<open>None\<close>, and from \<open>session.get\<close>. All are subclasses of
  \<open>Exception\<close>. \<open>exn_name\<close> is \<open>type(e).__name__\<close>.
\<close>

datatype exn =
    FileNotFoundError
  | PermissionError
  | UnicodeDecodeError
  | AttributeError
  | ReadTimeout
  | ConnectionError
  | ProxyError
  | SSLError
  | MissingSchema
  | OtherException str

fun exn_name :: "exn \<Rightarrow> str" where
  "exn_name FileNotFoundError = ascii ''FileNotFoundError''"
| "exn_name PermissionError = ascii ''PermissionError''"
| "exn_name UnicodeDecodeError = ascii ''UnicodeDecodeError''"
| "exn_name AttributeError = ascii ''AttributeError''"
| "exn_name ReadTimeout = ascii ''ReadTimeout''"
| "exn_name ConnectionError = ascii ''ConnectionError''"
| "exn_name ProxyError = ascii ''ProxyError''"
| "exn_name SSLError = ascii ''SSLError''"
| "exn_name MissingSchema = ascii ''MissingSchema''"
| "exn_name (OtherException n) = n"

text \<open>What \<open>session.get\<close> does: it returns a response with a status code, or raises.\<close>

datatype outcome = Response int | Raises exn

text \<open>\<open>datetime.utcnow()\<close>\<close>

record datetime =
  year :: nat
  month :: nat
  day :: nat
  hour :: nat
  minute :: nat
  second :: nat

text \<open>
  The world a run acts on: what reading each path gives, whether writing a path fails,
  the outcome of the \<open>n\<close>-th GET of the run for each URL, the URLs requested so far,
  the lines printed so far, and the clock.
\<close>

record world =
  files :: "str \<Rightarrow> exn + str"
  write_error :: "str \<Rightarrow> exn option"
  responses :: "nat \<Rightarrow> str \<Rightarrow> outcome"
  requests :: "str list"
  console :: "str list"
  utcnow :: datetime

definition print :: "str \<Rightarrow> world \<Rightarrow> world" where
  "print s w = w\<lparr>console := console w @ [s]\<rparr>"

definition session_get :: "str \<Rightarrow> nat \<Rightarrow> world \<Rightarrow> outcome \<times> world" where
  "session_get url timeout w =
     (responses w (length (requests w)) url, w\<lparr>requests := requests w @ [url]\<rparr>)"

section \<open>check_onion_service (lines 14-34)\<close>

text \<open>Lines 27-28: the scheme test and the prepended \<open>http://\<close>.\<close>

definition normalize_url :: "str \<Rightarrow> str" where
  "normalize_url url =
     (if \<not> startswith url (ascii ''http'') then ascii ''http://'' @ url else url)"

text \<open>
  The body of the \<open>try\<close> block: its result or the exception raised in it, the value of
  the local variable \<open>url\<close> at that point, and the world. On \<open>None\<close> the call
  \<open>url.startswith\<close> raises \<open>AttributeError\<close> before any request is made.
\<close>

definition try_body :: "pyval \<Rightarrow> nat \<Rightarrow> world \<Rightarrow> (exn + bool) \<times> pyval \<times> world" where
  "try_body url timeout w =
     (case url of
        NoneV \<Rightarrow> (Inl AttributeError, NoneV, w)
      | Str u \<Rightarrow>
          (let u' = normalize_url u;
               (r, w') = session_get u' timeout w
           in case r of
                Response status_code \<Rightarrow> (Inr (status_code < 500), Str u', w')
              | Raises e \<Rightarrow> (Inl e, Str u', w')))"

text \<open>\<open>except Exception as e\<close>: every exception of the body is logged and gives \<open>False\<close>.\<close>

definition check_onion_service :: "pyval \<Rightarrow> nat \<Rightarrow> world \<Rightarrow> bool \<times> world" where
  "check_onion_service url timeout w =
     (case try_body url timeout w of
        (Inr b, _, w') \<Rightarrow> (b, w')
      | (Inl e, url', w') \<Rightarrow>
          (False,
           print (ascii ''  '' @ [cross_mark] @ ascii '' '' @ fmt url' @ ascii '': '' @ exn_name e) w'))"

section \<open>read_services_csv (lines 36-46)\<close>

text \<open>
  \<open>csv.DictReader\<close> is a parameter: the function from the text of the file to its rows.
  An exception of \<open>open\<close> is not caught here.
\<close>

definition read_services_csv ::
  "(str \<Rightarrow> service list) \<Rightarrow> str \<Rightarrow> world \<Rightarrow> exn + service list" where
  "read_services_csv DictReader filename w =
     (case files w filename of
        Inl e \<Rightarrow> Inl e
      | Inr text \<Rightarrow> Inr (DictReader text))"

section \<open>update_readme (lines 48-118)\<close>

text \<open>\<open>strftime('%Y-%m-%d %H:%M:%S UTC')\<close>: zero-padded decimal fields.\<close>

definition zfill :: "nat \<Rightarrow> str \<Rightarrow> str" where
  "zfill width s = replicate (width - length s) 48 @ s"

definition strftime :: "datetime \<Rightarrow> str" where
  "strftime t =
     zfill 4 (str_of_nat (year t)) @ ascii ''-'' @ zfill 2 (str_of_nat (month t)) @ ascii ''-''
     @ zfill 2 (str_of_nat (day t)) @ ascii '' '' @ zfill 2 (str_of_nat (hour t)) @ ascii '':''
     @ zfill 2 (str_of_nat (minute t)) @ ascii '':'' @ zfill 2 (str_of_nat (second t))
     @ ascii '' UTC''"

text \<open>The two marker literals of lines 99-100.\<close>

definition start_marker :: str where
  "start_marker = ascii ''## '' @ [onion] @ ascii '' Tor Hidden Services Status''"

definition end_marker :: str where
  "end_marker = ascii ''\<newline>---\<newline>''"

text \<open>Lines 66-75 and 82-85: what one pass of each loop appends to \<open>status_content\<close>.\<close>

definition online_entry :: "service \<Rightarrow> str" where
  "online_entry service =
     (let name = dict_get service (ascii ''name'') (Str (ascii ''Unknown''));
          url = dict_get service (ascii ''url'') (Str []);
          desc = dict_get service (ascii ''description'') (Str [])
      in ascii ''- **'' @ fmt name @ ascii ''**\<newline>''
         @ ascii ''  - URL: `'' @ fmt url @ ascii ''`\<newline>''
         @ (if truthy desc then ascii ''  - '' @ fmt desc @ ascii ''\<newline>'' else [])
         @ ascii ''\<newline>'')"

definition offline_entry :: "service \<Rightarrow> str" where
  "offline_entry service =
     (let name = dict_get service (ascii ''name'') (Str (ascii ''Unknown''));
          url = dict_get service (ascii ''url'') (Str [])
      in ascii ''- **'' @ fmt name @ ascii ''** - `'' @ fmt url @ ascii ''`\<newline>'')"

text \<open>Lines 57-89: the rendered section, built by appending to \<open>status_content\<close>.\<close>

definition status_content :: "str \<Rightarrow> service list \<Rightarrow> service list \<Rightarrow> str" where
  "status_content timestamp online_services offline_services =
     (let sc0 = ascii ''## '' @ [onion] @ ascii '' Tor Hidden Services Status\<newline>\<newline>''
                @ ascii ''*Last checked: '' @ timestamp @ ascii ''*\<newline>\<newline>''
                @ ascii ''### '' @ [check_mark] @ ascii '' Online Services (''
                @ str_of_nat (length online_services) @ ascii '')\<newline>\<newline>'';
          sc1 = (if online_services \<noteq> []
                 then foldl (\<lambda>sc service. sc @ online_entry service) sc0 online_services
                 else sc0 @ ascii ''*No services are currently online.*\<newline>\<newline>'');
          sc2 = sc1 @ ascii ''### '' @ [cross_mark] @ ascii '' Offline Services (''
                @ str_of_nat (length offline_services) @ ascii '')\<newline>\<newline>'';
          sc3 = (if offline_services \<noteq> []
                 then foldl (\<lambda>sc service. sc @ offline_entry service) sc2 offline_services
                 else sc2 @ ascii ''*All services are online!*\<newline>'')
      in sc3 @ ascii ''\<newline>---\<newline>'')"

text \<open>Lines 98-114: replace the old section of \<open>readme\<close>, or append.\<close>

definition splice :: "str \<Rightarrow> str \<Rightarrow> str" where
  "splice readme status =
     (if contains readme start_marker then
        (let start_idx = py_find readme start_marker 0;
             end_idx = py_find readme end_marker start_idx
         in if end_idx \<noteq> - 1
            then slice_upto readme start_idx @ status
                 @ slice_from readme (end_idx + int (length end_marker))
            else slice_upto readme start_idx @ status)
      else readme @ ascii ''\<newline>'' @ status)"

text \<open>
  Lines 91-96: reading the document. Only \<open>FileNotFoundError\<close> is caught, and gives the
  fixed title.
\<close>

definition read_readme :: "str \<Rightarrow> world \<Rightarrow> exn + str" where
  "read_readme readme_file w =
     (case files w readme_file of
        Inl e \<Rightarrow>
          (if e = FileNotFoundError
           then Inr (ascii ''# Tor Hidden Services Monitor\<newline>\<newline>'')
           else Inl e)
      | Inr text \<Rightarrow> Inr text)"

definition update_readme :: "service list \<Rightarrow> service list \<Rightarrow> str \<Rightarrow> world \<Rightarrow> exn + world" where
  "update_readme online_services offline_services readme_file w =
     (let timestamp = strftime (utcnow w);
          status = status_content timestamp online_services offline_services
      in case read_readme readme_file w of
           Inl e \<Rightarrow> Inl e
         | Inr readme \<Rightarrow>
             (case write_error w readme_file of
                Some e \<Rightarrow> Inl e
              | None \<Rightarrow> Inr (w\<lparr>files := (files w)(readme_file := Inr (splice readme status))\<rparr>)))"

section \<open>main (lines 120-150)\<close>

text \<open>Lines 135-145: the loop over the services, with the two accumulators.\<close>

fun check_each ::
  "service list \<Rightarrow> service list \<times> service list \<times> world \<Rightarrow> service list \<times> service list \<times> world" where
  "check_each [] acc = acc"
| "check_each (service # rest) (online_services, offline_services, w) =
     (let name = dict_get service (ascii ''name'') (Str (ascii ''Unknown''));
          url = dict_get service (ascii ''url'') (Str []);
          w1 = print (ascii ''Checking '' @ fmt name @ ascii ''...'') w;
          (ok, w2) = check_onion_service url 30 w1
      in if ok
         then check_each rest
                (online_services @ [service], offline_services,
                 print (ascii ''  '' @ [check_mark] @ ascii '' Online'') w2)
         else check_each rest
                (online_services, offline_services @ [service],
                 print (ascii ''  '' @ [cross_mark] @ ascii '' Offline'') w2))"

definition main :: "(str \<Rightarrow> service list) \<Rightarrow> world \<Rightarrow> exn + world" where
  "main DictReader w0 =
     (let w = print ([onion] @ ascii '' Starting Tor hidden service check...'') w0
      in case read_services_csv DictReader (ascii ''services.csv'') w of
           Inl e \<Rightarrow>
             (if e = FileNotFoundError
              then Inr (print ([cross_mark] @ ascii '' services.csv not found!'') w)
              else Inl e)
         | Inr services \<Rightarrow>
             (let w1 = print ([clipboard] @ ascii '' Found '' @ str_of_nat (length services)
                              @ ascii '' services to check\<newline>'') w;
                  (online_services, offline_services, w2) = check_each services ([], [], w1);
                  w3 = print (ascii ''\<newline>'' @ [memo] @ ascii '' Updating README...'') w2
              in case update_readme online_services offline_services (ascii ''README.md'') w3 of
                   Inl e \<Rightarrow> Inl e
                 | Inr w4 \<Rightarrow>
                     Inr (print ([check_mark] @ ascii '' Done! ''
                                 @ str_of_nat (length online_services) @ ascii '' online, ''
                                 @ str_of_nat (length offline_services) @ ascii '' offline'') w4)))"

section \<open>Notions used to state the properties\<close>

text \<open>
  \<open>occurs_at sub s i\<close>: \<open>sub\<close> occurs in \<open>s\<close> at index \<open>i\<close>.
  \<open>occurrences sub s\<close>: the number of indices of \<open>s\<close> at which \<open>sub\<close> occurs.
\<close>

definition occurs_at :: "'a list \<Rightarrow> 'a list \<Rightarrow> nat \<Rightarrow> bool" where
  "occurs_at sub s i = (i \<le> length s \<and> prefix sub (drop i s))"

fun occurrences :: "'a list \<Rightarrow> 'a list \<Rightarrow> nat" where
  "occurrences sub [] = (if sub = [] then 1 else 0)"
| "occurrences sub (c # cs) = (if prefix sub (c # cs) then 1 else 0) + occurrences sub cs"

text \<open>
  The span of the old section that lines 102-111 locate in a document: \<open>None\<close> when the
  start marker is absent, otherwise the start index and the index one past the span.
\<close>

definition old_span :: "str \<Rightarrow> (nat \<times> nat) option" where
  "old_span readme =
     (case find_first start_marker readme of
        None \<Rightarrow> None
      | Some p \<Rightarrow>
          (case find_first end_marker (drop p readme) of
             None \<Rightarrow> Some (p, length readme)
           | Some k \<Rightarrow> Some (p, p + k + length end_marker)))"

text \<open>The text of a document that follows the span of its old section.\<close>

definition text_after_span :: "str \<Rightarrow> str" where
  "text_after_span readme =
     (case old_span readme of None \<Rightarrow> [] | Some (a, b) \<Rightarrow> drop b readme)"

text \<open>
  A service none of whose given columns holds the start marker. The online list renders
  the columns name, url and description, the offline list name and url.
\<close>

definition marker_free :: "str list \<Rightarrow> service \<Rightarrow> bool" where
  "marker_free columns service =
     list_all (\<lambda>k. case service k of Some (Str s) \<Rightarrow> \<not> contains s start_marker | _ \<Rightarrow> True)
       columns"

definition online_columns :: "str list" where
  "online_columns = [ascii ''name'', ascii ''url'', ascii ''description'']"

definition offline_columns :: "str list" where
  "offline_columns = [ascii ''name'', ascii ''url'']"

text \<open>
  The number of empty lines at the end of a text whose lines end in a line feed: the
  line feeds at its end, less the one that ends the last non-empty line.
\<close>

definition trailing_newlines :: "str \<Rightarrow> nat" where
  "trailing_newlines t = length (takeWhile (\<lambda>c. c = 10) (rev t))"

definition blank_lines_at_end :: "str \<Rightarrow> nat" where
  "blank_lines_at_end t =
     (if trailing_newlines t = length t then length t else trailing_newlines t - 1)"

text \<open>The four parts of the rendered section that precede the closing separator.\<close>

definition section_head :: "str \<Rightarrow> nat \<Rightarrow> str" where
  "section_head timestamp n =
     ascii ''## '' @ [onion] @ ascii '' Tor Hidden Services Status\<newline>\<newline>''
     @ ascii ''*Last checked: '' @ timestamp @ ascii ''*\<newline>\<newline>''
     @ ascii ''### '' @ [check_mark] @ ascii '' Online Services (''
     @ str_of_nat n @ ascii '')\<newline>\<newline>''"

definition online_part :: "service list \<Rightarrow> str" where
  "online_part online_services =
     (if online_services \<noteq> [] then concat (map online_entry online_services)
      else ascii ''*No services are currently online.*\<newline>\<newline>'')"

definition offline_head :: "nat \<Rightarrow> str" where
  "offline_head n =
     ascii ''### '' @ [cross_mark] @ ascii '' Offline Services (''
     @ str_of_nat n @ ascii '')\<newline>\<newline>''"

definition offline_part :: "service list \<Rightarrow> str" where
  "offline_part offline_services =
     (if offline_services \<noteq> [] then concat (map offline_entry offline_services)
      else ascii ''*All services are online!*\<newline>'')"

text \<open>
  A world and two services for concrete runs: no file exists, the first GET of the run
  answers 200 and every later one times out.
\<close>

definition example_world :: world where
  "example_world =
     \<lparr>files = (\<lambda>p. Inl FileNotFoundError), write_error = (\<lambda>p. None),
      responses = (\<lambda>n url. if n = 0 then Response 200 else Raises ReadTimeout),
      requests = [], console = [],
      utcnow = \<lparr>year = 2024, month = 1, day = 2, hour = 3, minute = 4, second = 5\<rparr>\<rparr>"

definition alpha :: service where
  "alpha = [ascii ''name'' \<mapsto> Str (ascii ''Alpha''), ascii ''url'' \<mapsto> Str (ascii ''alpha.onion'')]"

definition beta :: service where
  "beta = [ascii ''name'' \<mapsto> Str (ascii ''Beta''), ascii ''url'' \<mapsto> Str (ascii ''beta.onion'')]"

text \<open>
  Documents for concrete runs: one with a closed old section between other text, one
  whose old section has no end marker, and the fixed title of line 96.
\<close>

definition example_doc :: str where
  "example_doc =
     ascii ''Intro\<newline>'' @ start_marker @ ascii ''\<newline>old\<newline>---\<newline>Outro''"

definition example_doc_open :: str where
  "example_doc_open = ascii ''Intro\<newline>'' @ start_marker @ ascii ''\<newline>old text''"

definition title_doc :: str where
  "title_doc = ascii ''# Tor Hidden Services Monitor\<newline>\<newline>''"

text \<open>
  A service whose name is the start marker, and a document that holds two old sections.
\<close>

definition marker_named :: service where
  "marker_named = [ascii ''name'' \<mapsto> Str start_marker]"

definition two_sections_doc :: str where
  "two_sections_doc = start_marker @ end_marker @ start_marker"



section \<open>Substring search\<close>

lemma occurs_at_Cons_Suc: "occurs_at sub (c # cs) (Suc i) = occurs_at sub cs i"
  by (simp add: occurs_at_def)

lemma occurs_at_0: "occurs_at sub s 0 = prefix sub s"
  by (simp add: occurs_at_def)

lemma find_first_Some_iff:
  "find_first sub s = Some k \<longleftrightarrow> occurs_at sub s k \<and> (\<forall>i<k. \<not> occurs_at sub s i)"
proof (induction s arbitrary: k)
  case Nil
  show ?case by (auto simp: occurs_at_def)
next
  case (Cons c cs)
  show ?case
  proof (cases "prefix sub (c # cs)")
    case True
    then show ?thesis
      by (cases k) (auto simp: occurs_at_0)
  next
    case False
    show ?thesis
    proof (cases k)
      case 0
      with False show ?thesis by (simp add: occurs_at_0)
    next
      case (Suc j)
      have "(\<forall>i<Suc j. \<not> occurs_at sub (c # cs) i) \<longleftrightarrow> (\<forall>i<j. \<not> occurs_at sub cs i)"
        using False by (auto simp: less_Suc_eq_0_disj occurs_at_Cons_Suc occurs_at_0)
      with False Suc Cons.IH [of j] show ?thesis
        by (auto simp: occurs_at_Cons_Suc)
    qed
  qed
qed

lemma find_first_None_iff:
  "find_first sub s = None \<longleftrightarrow> (\<forall>i. \<not> occurs_at sub s i)"
proof (induction s)
  case Nil
  show ?case by (auto simp: occurs_at_def)
next
  case (Cons c cs)
  have "(\<forall>i. \<not> occurs_at sub (c # cs) i)
          \<longleftrightarrow> \<not> prefix sub (c # cs) \<and> (\<forall>i. \<not> occurs_at sub cs i)"
    by (metis occurs_at_0 occurs_at_Cons_Suc not0_implies_Suc)
  with Cons show ?case by auto
qed

lemma occurs_at_drop:
  "p \<le> length s \<Longrightarrow> occurs_at sub (drop p s) i = occurs_at sub s (p + i)"
  by (auto simp: occurs_at_def add.commute)

lemma py_find_from:
  assumes "p \<le> length s"
  shows "py_find s sub (int p) =
           (case find_first sub (drop p s) of None \<Rightarrow> - 1 | Some k \<Rightarrow> int (p + k))"
  using assms by (simp add: py_find_def split: option.splits)

lemma foldl_append_entries: "foldl (\<lambda>sc x. sc @ f x) s xs = s @ concat (map f xs)"
  by (induction xs arbitrary: s) simp_all

lemma status_content_parts:
  "status_content ts on off =
     section_head ts (length on) @ online_part on @ offline_head (length off)
     @ offline_part off @ end_marker"
  by (simp add: status_content_def section_head_def online_part_def offline_head_def
      offline_part_def end_marker_def foldl_append_entries Let_def)

section \<open>The partition made by main\<close>

lemma check_each_acc:
  "check_each services (on, off, w) = (on', off', w') \<Longrightarrow>
   \<exists>oks. length oks = length services
     \<and> on' = on @ map fst (filter snd (zip services oks))
     \<and> off' = off @ map fst (filter (\<lambda>p. \<not> snd p) (zip services oks))"
proof (induction services arbitrary: on off w)
  case Nil
  then show ?case by simp
next
  case (Cons s rest)
  let ?w1 = "print (ascii ''Checking '' @ fmt (dict_get s (ascii ''name'') (Str (ascii ''Unknown'')))
                    @ ascii ''...'') w"
  obtain ok w2 where c: "check_onion_service (dict_get s (ascii ''url'') (Str [])) 30 ?w1 = (ok, w2)"
    by (cases "check_onion_service (dict_get s (ascii ''url'') (Str [])) 30 ?w1") auto
  show ?case
  proof (cases ok)
    case True
    with Cons.prems c have "check_each rest (on @ [s], off,
        print (ascii ''  '' @ [check_mark] @ ascii '' Online'') w2) = (on', off', w')"
      by (simp add: Let_def)
    from Cons.IH [OF this] obtain oks where "length oks = length rest"
      "on' = (on @ [s]) @ map fst (filter snd (zip rest oks))"
      "off' = off @ map fst (filter (\<lambda>p. \<not> snd p) (zip rest oks))" by blast
    then show ?thesis by (intro exI [of _ "True # oks"]) simp
  next
    case False
    with Cons.prems c have "check_each rest (on, off @ [s],
        print (ascii ''  '' @ [cross_mark] @ ascii '' Offline'') w2) = (on', off', w')"
      by (simp add: Let_def)
    from Cons.IH [OF this] obtain oks where "length oks = length rest"
      "on' = on @ map fst (filter snd (zip rest oks))"
      "off' = (off @ [s]) @ map fst (filter (\<lambda>p. \<not> snd p) (zip rest oks))" by blast
    then show ?thesis by (intro exI [of _ "False # oks"]) simp
  qed
qed

lemma zip_filter_length:
  "length oks = length xs \<Longrightarrow>
   length (filter snd (zip xs oks)) + length (filter (\<lambda>p. \<not> snd p) (zip xs oks)) = length xs"
  by (induction xs oks rule: list_induct2') auto

lemma zip_filter_mset:
  "length oks = length xs \<Longrightarrow>
   mset (map fst (filter snd (zip xs oks))) + mset (map fst (filter (\<lambda>p. \<not> snd p) (zip xs oks)))
     = mset xs"
  by (induction xs oks rule: list_induct2') auto

lemma zip_filter_subseq:
  "length oks = length xs \<Longrightarrow> subseq (map fst (filter P (zip xs oks))) xs"
  by (induction xs oks rule: list_induct2') auto

text \<open>
  Claim C1. Whatever the services loaded and whatever the probes answer, the loop of
  \<open>main\<close> returns, and its two lists partition the services: there is one verdict per
  service, in input order, and the online list is the services with a true verdict, the
  offline list those with a false one, each in input order. Hence the sizes add up, the
  two lists together hold every service exactly as often as the input does, and each
  list is a subsequence of the input.
\<close>

theorem main_partitions_services:
  "case check_each services ([], [], w) of
     (online, offline, w') \<Rightarrow>
       length online + length offline = length services
       \<and> mset online + mset offline = mset services
       \<and> subseq online services \<and> subseq offline services
       \<and> (\<exists>oks. length oks = length services
             \<and> online = map fst (filter snd (zip services oks))
             \<and> offline = map fst (filter (\<lambda>p. \<not> snd p) (zip services oks)))"
proof -
  obtain online offline w' where r: "check_each services ([], [], w) = (online, offline, w')"
    by (cases "check_each services ([], [], w)") auto
  from check_each_acc [OF r] obtain oks where o: "length oks = length services"
    "online = map fst (filter snd (zip services oks))"
    "offline = map fst (filter (\<lambda>p. \<not> snd p) (zip services oks))" by auto
  have "length online + length offline = length services"
    using zip_filter_length [OF o(1)] o by simp
  moreover have "mset online + mset offline = mset services"
    using zip_filter_mset [OF o(1)] o by simp
  moreover have "subseq online services" "subseq offline services"
    using zip_filter_subseq [OF o(1)] o by simp_all
  ultimately show ?thesis using r o by auto
qed

text \<open>
  The scenario of the specification: Alpha answers 200 and Beta times out, so Alpha is
  online and Beta offline.
\<close>

lemma main_scenario_alpha_beta:
  "fst (check_each [alpha, beta] ([], [], example_world)) = [alpha]
   \<and> fst (snd (check_each [alpha, beta] ([], [], example_world))) = [beta]"
proof -
  have a: "dict_get alpha (ascii ''url'') (Str []) = Str (ascii ''alpha.onion'')"
    by (simp add: alpha_def dict_get_def ascii_def)
  have b: "dict_get beta (ascii ''url'') (Str []) = Str (ascii ''beta.onion'')"
    by (simp add: beta_def dict_get_def ascii_def)
  show ?thesis
    by (simp add: a b example_world_def check_onion_service_def try_body_def session_get_def
        print_def Let_def)
qed

section \<open>The prober\<close>

text \<open>
  Claim C2. When the GET returns a response, \<open>check_onion_service\<close> returns true exactly
  when the status code is below 500; when the GET raises, it returns false. It returns
  false as well on a URL that is \<open>None\<close>. In every case it returns a value to its caller.
\<close>

theorem check_onion_service_classifies:
  "(responses w (length (requests w)) (normalize_url u) = Response status_code
      \<longrightarrow> fst (check_onion_service (Str u) t w) = (status_code < 500))
   \<and> (responses w (length (requests w)) (normalize_url u) = Raises e
      \<longrightarrow> fst (check_onion_service (Str u) t w) = False)
   \<and> fst (check_onion_service NoneV t w) = False"
  by (simp add: check_onion_service_def try_body_def session_get_def Let_def)

theorem check_onion_service_classifies_witness:
  "responses example_world (length (requests example_world)) (normalize_url (ascii ''a.onion''))
      = Response 200
   \<and> fst (check_onion_service (Str (ascii ''a.onion'')) 30 example_world) = True
   \<and> responses (example_world\<lparr>requests := [[]]\<rparr>)
        (length (requests (example_world\<lparr>requests := [[]]\<rparr>))) (normalize_url (ascii ''a.onion''))
      = Raises ReadTimeout
   \<and> fst (check_onion_service (Str (ascii ''a.onion'')) 30 (example_world\<lparr>requests := [[]]\<rparr>))
      = False"
  using check_onion_service_classifies
      [of example_world "ascii ''a.onion''" 200 30 ReadTimeout]
    check_onion_service_classifies
      [of "example_world\<lparr>requests := [[]]\<rparr>" "ascii ''a.onion''" 200 30 ReadTimeout]
  by (simp add: example_world_def)

lemma normalize_url_without_http:
  "\<not> prefix (ascii ''http'') url \<Longrightarrow> normalize_url url = ascii ''http://'' @ url"
  by (simp add: normalize_url_def startswith_def)

lemma normalize_url_with_http:
  "prefix (ascii ''http'') url \<Longrightarrow> normalize_url url = url"
  by (simp add: normalize_url_def startswith_def)

lemma normalize_url_examples:
  "normalize_url (ascii ''example.onion'') = ascii ''http://example.onion''
   \<and> normalize_url (ascii ''https://example.onion'') = ascii ''https://example.onion''"
  by (simp add: normalize_url_def startswith_def ascii_def)

text \<open>
  Claim C5. A URL without a scheme whose host name begins with the letters \<open>http\<close> is
  requested as it stands: \<open>httpexample.onion\<close> gets no \<open>http://\<close> in front.
\<close>

theorem probe_of_http_named_host:
  "normalize_url (ascii ''httpexample.onion'') = ascii ''httpexample.onion''
   \<and> requests (snd (check_onion_service (Str (ascii ''httpexample.onion'')) t w))
       = requests w @ [ascii ''httpexample.onion'']"
  by (simp add: check_onion_service_def try_body_def session_get_def Let_def print_def
      normalize_url_def startswith_def ascii_def split: outcome.splits)

section \<open>The missing input file\<close>

text \<open>
  Claim C9. When \<open>services.csv\<close> does not exist, \<open>read_services_csv\<close> raises
  \<open>FileNotFoundError\<close> to its caller, and \<open>main\<close> returns normally after printing its
  first line and the line that reports the missing file: no request has been issued and
  no file has been written.
\<close>

theorem main_missing_input_file:
  assumes "files w (ascii ''services.csv'') = Inl FileNotFoundError"
  shows "read_services_csv DictReader (ascii ''services.csv'') w = Inl FileNotFoundError
   \<and> (\<exists>w'. main DictReader w = Inr w'
          \<and> requests w' = requests w \<and> files w' = files w
          \<and> console w' = console w
                @ [[onion] @ ascii '' Starting Tor hidden service check...'',
                   [cross_mark] @ ascii '' services.csv not found!''])"
proof -
  have "read_services_csv DictReader (ascii ''services.csv'') w = Inl FileNotFoundError"
    using assms by (simp add: read_services_csv_def)
  moreover have "main DictReader w =
       Inr (w\<lparr>console := console w
                @ [[onion] @ ascii '' Starting Tor hidden service check...'',
                   [cross_mark] @ ascii '' services.csv not found!'']\<rparr>)"
    using assms by (simp add: main_def read_services_csv_def print_def)
  ultimately show ?thesis by simp
qed

theorem main_missing_input_file_witness:
  "files example_world (ascii ''services.csv'') = Inl FileNotFoundError
   \<and> read_services_csv (\<lambda>text. []) (ascii ''services.csv'') example_world
       = Inl FileNotFoundError
   \<and> (\<exists>w'. main (\<lambda>text. []) example_world = Inr w'
          \<and> requests w' = requests example_world \<and> files w' = files example_world
          \<and> console w' = console example_world
                @ [[onion] @ ascii '' Starting Tor hidden service check...'',
                   [cross_mark] @ ascii '' services.csv not found!''])"
proof -
  have f: "files example_world (ascii ''services.csv'') = Inl FileNotFoundError"
    by (simp add: example_world_def)
  from f main_missing_input_file [OF f, of "\<lambda>text. []"] show ?thesis
    by (rule conjI)
qed

section \<open>The rendered section\<close>

lemma sublist_in_left: "sublist x a \<Longrightarrow> sublist x (a @ b)"
  by (metis sublist_appendI sublist_order.order_trans append_Nil)

lemma sublist_in_right: "sublist x b \<Longrightarrow> sublist x (a @ b)"
  by (metis sublist_append_leftI sublist_order.order_trans)

text \<open>
  Claim C10. With no service at all, the rendered section holds the sentence
  \<open>*No services are currently online.*\<close> and the sentence \<open>*All services are online!*\<close>;
  the second is rendered whenever the offline list is empty, whatever the online list.
\<close>

theorem placeholders_of_empty_lists:
  "sublist (ascii ''*No services are currently online.*'') (status_content ts [] [])
   \<and> sublist (ascii ''*All services are online!*'') (status_content ts [] [])
   \<and> sublist (ascii ''*All services are online!*'') (status_content ts online [])"
proof -
  have a: "sublist (ascii ''*No services are currently online.*'') (online_part [])"
    by (simp add: online_part_def ascii_def sublist_append_rightI [of _ "[10, 10]", simplified])
  have b: "sublist (ascii ''*All services are online!*'') (offline_part [])"
    unfolding offline_part_def ascii_def
    by (simp add: sublist_append_rightI [of _ "[10]", simplified])
  have b': "sublist (ascii ''*All services are online!*'') (status_content ts on [])" for on
    unfolding status_content_parts
    by (intro sublist_in_right sublist_in_left b)
  have a': "sublist (ascii ''*No services are currently online.*'') (status_content ts [] [])"
    unfolding status_content_parts
    by (intro sublist_in_right sublist_in_left a)
  from a' b' show ?thesis by blast
qed

section \<open>Splicing the section into the document\<close>

lemma start_marker_list:
  "start_marker = [35, 35, 32, 129477, 32, 84, 111, 114, 32, 72, 105, 100, 100, 101, 110, 32,
     83, 101, 114, 118, 105, 99, 101, 115, 32, 83, 116, 97, 116, 117, 115]"
  by (simp add: start_marker_def ascii_def onion_def)

lemma end_marker_list: "end_marker = [10, 45, 45, 45, 10]"
  by (simp add: end_marker_def ascii_def)

lemma find_first_le_length: "find_first sub s = Some p \<Longrightarrow> p \<le> length s"
  by (simp add: find_first_Some_iff occurs_at_def)

lemma py_find_0:
  "py_find s sub 0 = (case find_first sub s of None \<Rightarrow> - 1 | Some k \<Rightarrow> int k)"
  by (simp add: py_find_def split: option.splits)

lemma slice_upto_nat: "p \<le> length s \<Longrightarrow> slice_upto s (int p) = take p s"
  by (simp add: slice_upto_def slice_index_def)

lemma slice_from_nat: "slice_from s (int p) = drop p s"
  by (simp add: slice_from_def slice_index_def min_def)

lemma splice_absent:
  "find_first start_marker doc = None \<Longrightarrow> splice doc s = doc @ [10] @ s"
  by (simp add: splice_def contains_def ascii_def)

lemma splice_found_end:
  assumes "find_first start_marker doc = Some p"
    and "find_first end_marker (drop p doc) = Some k"
  shows "splice doc s = take p doc @ s @ drop (p + k + length end_marker) doc"
proof -
  have p: "p \<le> length doc" using assms(1) by (rule find_first_le_length)
  have a: "py_find doc start_marker 0 = int p" using assms(1) by (simp add: py_find_0)
  have b: "py_find doc end_marker (int p) = int (p + k)"
    using assms(2) p by (simp add: py_find_from)
  have c: "int (p + k) + int (length end_marker) = int (p + k + length end_marker)" by simp
  show ?thesis
    unfolding splice_def Let_def a b c
    using assms(1) p by (simp add: contains_def slice_upto_nat slice_from_nat del: of_nat_add)
qed

lemma splice_found_noend:
  assumes "find_first start_marker doc = Some p"
    and "find_first end_marker (drop p doc) = None"
  shows "splice doc s = take p doc @ s"
proof -
  have p: "p \<le> length doc" using assms(1) by (rule find_first_le_length)
  have a: "py_find doc start_marker 0 = int p" using assms(1) by (simp add: py_find_0)
  have b: "py_find doc end_marker (int p) = - 1"
    using assms(2) p by (simp add: py_find_from)
  show ?thesis
    unfolding splice_def Let_def a b
    using assms(1) p by (simp add: contains_def slice_upto_nat)
qed

lemma splice_old_span:
  "splice doc s =
     (case old_span doc of
        None \<Rightarrow> doc @ [10] @ s
      | Some (a, b) \<Rightarrow> take a doc @ s @ drop b doc)"
  by (auto simp: old_span_def splice_absent splice_found_end splice_found_noend
      split: option.splits)

lemma trailing_newlines_snoc: "trailing_newlines (t @ [10]) = Suc (trailing_newlines t)"
  by (simp add: trailing_newlines_def)

lemma trailing_newlines_all: "trailing_newlines t = length t \<longleftrightarrow> set t \<subseteq> {10}"
proof -
  have "length (takeWhile (\<lambda>c. c = 10) (rev t)) = length (rev t)
          \<longleftrightarrow> takeWhile (\<lambda>c. c = 10) (rev t) = rev t"
    by (metis takeWhile_eq_take take_all_iff order_refl)
  then show ?thesis
    by (auto simp: trailing_newlines_def)
qed

lemma blank_lines_after_append:
  "blank_lines_at_end (doc @ [10]) =
     (if set doc \<subseteq> {10} then Suc (length doc) else trailing_newlines doc)"
  by (simp add: blank_lines_at_end_def trailing_newlines_snoc trailing_newlines_all)

lemma example_doc_start: "find_first start_marker example_doc = Some 6"
  by (simp add: example_doc_def start_marker_list ascii_def)

lemma example_doc_end: "find_first end_marker (drop 6 example_doc) = Some 35"
  by (simp add: example_doc_def start_marker_list end_marker_list ascii_def)

lemma example_doc_open_start: "find_first start_marker example_doc_open = Some 6"
  by (simp add: example_doc_open_def start_marker_list ascii_def)

lemma example_doc_open_end: "find_first end_marker (drop 6 example_doc_open) = None"
  by (simp add: example_doc_open_def start_marker_list end_marker_list ascii_def)

text \<open>
  Claim C6. When the start marker first occurs at index \<open>p\<close> of the document and the end
  marker first occurs, at or after \<open>p\<close>, at index \<open>q\<close>, the update replaces exactly the
  span from \<open>p\<close> to the end of that end marker: the result is the text before \<open>p\<close>, the
  new section, and the text after the end marker, both kept as they were.
\<close>

theorem splice_replaces_span:
  assumes "occurs_at start_marker doc p" and "\<forall>i<p. \<not> occurs_at start_marker doc i"
    and "occurs_at end_marker doc q" and "p \<le> q"
    and "\<forall>i. p \<le> i \<and> i < q \<longrightarrow> \<not> occurs_at end_marker doc i"
  shows "splice doc s = take p doc @ s @ drop (q + length end_marker) doc"
proof -
  have f: "find_first start_marker doc = Some p"
    using assms(1,2) by (simp add: find_first_Some_iff)
  have p: "p \<le> length doc" using assms(1) by (simp add: occurs_at_def)
  obtain k where k: "q = p + k" using assms(4) by (auto simp: le_iff_add)
  have "occurs_at end_marker (drop p doc) k"
    using assms(3) p k by (simp add: occurs_at_drop)
  moreover have "\<forall>i<k. \<not> occurs_at end_marker (drop p doc) i"
    using assms(5) p k by (simp add: occurs_at_drop)
  ultimately have "find_first end_marker (drop p doc) = Some k"
    by (simp add: find_first_Some_iff)
  from splice_found_end [OF f this] k show ?thesis by simp
qed

theorem splice_replaces_span_witness:
  "find_first start_marker example_doc = Some 6
   \<and> find_first end_marker (drop 6 example_doc) = Some 35
   \<and> splice example_doc (ascii ''NEW'') = ascii ''Intro\<newline>NEWOutro''"
proof -
  have s: "occurs_at start_marker example_doc 6" "\<forall>i<6. \<not> occurs_at start_marker example_doc i"
    using example_doc_start by (simp_all add: find_first_Some_iff)
  have l: "6 \<le> length example_doc" using s(1) by (simp add: occurs_at_def)
  have e: "occurs_at end_marker (drop 6 example_doc) 35"
    "\<forall>i<35. \<not> occurs_at end_marker (drop 6 example_doc) i"
    using example_doc_end by (simp_all add: find_first_Some_iff)
  have e1: "occurs_at end_marker example_doc 41"
    using e(1) occurs_at_drop [OF l, of end_marker 35] by simp
  have e2: "\<forall>i. 6 \<le> i \<and> i < 41 \<longrightarrow> \<not> occurs_at end_marker example_doc i"
  proof (intro allI impI)
    fix i :: nat
    assume i: "6 \<le> i \<and> i < 41"
    then have "i - 6 < 35" by arith
    with e(2) have "\<not> occurs_at end_marker (drop 6 example_doc) (i - 6)" by blast
    with occurs_at_drop [OF l, of end_marker "i - 6"] i show "\<not> occurs_at end_marker example_doc i"
      by simp
  qed
  have "splice example_doc (ascii ''NEW'')
          = take 6 example_doc @ ascii ''NEW'' @ drop (41 + length end_marker) example_doc"
    by (rule splice_replaces_span [OF s(1) s(2) e1 _ e2]) simp
  also have "\<dots> = ascii ''Intro\<newline>NEWOutro''"
    by (simp add: example_doc_def start_marker_list end_marker_list ascii_def)
  finally show ?thesis using example_doc_start example_doc_end by simp
qed

text \<open>
  Claim C8. When the start marker first occurs at index \<open>p\<close> and the end marker occurs
  nowhere at or after \<open>p\<close>, the result is the text before \<open>p\<close> followed by the new
  section: everything of the old document from \<open>p\<close> on is gone.
\<close>

theorem splice_truncates_without_end:
  assumes "occurs_at start_marker doc p" and "\<forall>i<p. \<not> occurs_at start_marker doc i"
    and "\<forall>i\<ge>p. \<not> occurs_at end_marker doc i"
  shows "splice doc s = take p doc @ s"
proof -
  have f: "find_first start_marker doc = Some p"
    using assms(1,2) by (simp add: find_first_Some_iff)
  have p: "p \<le> length doc" using assms(1) by (simp add: occurs_at_def)
  have "find_first end_marker (drop p doc) = None"
    using assms(3) p by (simp add: find_first_None_iff occurs_at_drop)
  from splice_found_noend [OF f this] show ?thesis .
qed

theorem splice_truncates_without_end_witness:
  "find_first start_marker example_doc_open = Some 6
   \<and> find_first end_marker (drop 6 example_doc_open) = None
   \<and> splice example_doc_open (ascii ''NEW'') = ascii ''Intro\<newline>NEW''"
proof -
  have s: "occurs_at start_marker example_doc_open 6"
    "\<forall>i<6. \<not> occurs_at start_marker example_doc_open i"
    using example_doc_open_start by (simp_all add: find_first_Some_iff)
  have l: "6 \<le> length example_doc_open" using s(1) by (simp add: occurs_at_def)
  have e: "\<forall>i\<ge>6. \<not> occurs_at end_marker example_doc_open i"
  proof (intro allI impI)
    fix i :: nat
    assume i: "6 \<le> i"
    from example_doc_open_end have "\<not> occurs_at end_marker (drop 6 example_doc_open) (i - 6)"
      by (simp add: find_first_None_iff)
    with occurs_at_drop [OF l, of end_marker "i - 6"] i
    show "\<not> occurs_at end_marker example_doc_open i" by simp
  qed
  have "splice example_doc_open (ascii ''NEW'') = take 6 example_doc_open @ ascii ''NEW''"
    by (rule splice_truncates_without_end [OF s(1) s(2) e])
  also have "\<dots> = ascii ''Intro\<newline>NEW''"
    by (simp add: example_doc_open_def start_marker_list ascii_def)
  finally show ?thesis using example_doc_open_start example_doc_open_end by simp
qed

text \<open>
  Claim C7, as stated, fails: a blank line before the section is not always one. After
  the fixed title of line 96, which ends in two line feeds, two blank lines precede the
  appended section; after a document that does not end in a line feed, none does.
\<close>

theorem blank_line_counterexample:
  "\<not> contains title_doc start_marker
   \<and> splice title_doc (ascii ''NEW'') = (title_doc @ ascii ''\<newline>'') @ ascii ''NEW''
   \<and> blank_lines_at_end (title_doc @ ascii ''\<newline>'') = 2
   \<and> \<not> contains (ascii ''abc'') start_marker
   \<and> splice (ascii ''abc'') (ascii ''NEW'') = (ascii ''abc'' @ ascii ''\<newline>'') @ ascii ''NEW''
   \<and> blank_lines_at_end (ascii ''abc'' @ ascii ''\<newline>'') = 0"
  by (simp add: title_doc_def contains_def splice_def start_marker_list ascii_def
      blank_lines_at_end_def trailing_newlines_def)

text \<open>
  Claim C7, amended. When the document does not hold the start marker, the result is the
  document, kept as it was, then one line feed, then the new section. The number of blank
  lines before the section is the number of line feeds the document ends with; when the
  document is empty or consists of line feeds only, it is one more than that, that is,
  the length of the document plus one.
\<close>

theorem splice_appends:
  assumes "\<not> contains doc start_marker"
  shows "splice doc s = doc @ ascii ''\<newline>'' @ s
    \<and> blank_lines_at_end (doc @ ascii ''\<newline>'')
        = (if set doc \<subseteq> {10} then Suc (length doc) else trailing_newlines doc)"
  using assms blank_lines_after_append [of doc]
  by (simp add: contains_def splice_absent ascii_def)

theorem splice_appends_witness:
  "\<not> contains (ascii ''# Title\<newline>'') start_marker
   \<and> splice (ascii ''# Title\<newline>'') (ascii ''NEW'') = ascii ''# Title\<newline>\<newline>NEW''
   \<and> blank_lines_at_end (ascii ''# Title\<newline>\<newline>'') = 1"
proof -
  have c: "\<not> contains (ascii ''# Title\<newline>'') start_marker"
    by (simp add: contains_def start_marker_list ascii_def)
  from splice_appends [OF c, of "ascii ''NEW''"] c show ?thesis
    by (simp add: ascii_def trailing_newlines_def)
qed

section \<open>Counting occurrences of a marker\<close>

lemma prefix_before_sep:
  assumes "prefix m (u @ c # v)" and "c \<notin> set m"
  shows "prefix m u"
proof -
  from assms(1) consider "prefix m u" | us where "m = u @ us" "prefix us (c # v)"
    by (auto simp: prefix_append)
  then show ?thesis
  proof cases
    case 1
    then show ?thesis .
  next
    case 2
    with assms(2) have "us = []" by (cases us) auto
    with 2 show ?thesis by simp
  qed
qed

lemma prefix_sep_iff:
  "c \<notin> set m \<Longrightarrow> prefix m (u @ c # v) \<longleftrightarrow> prefix m u"
  by (auto dest: prefix_before_sep)

lemma occurrences_append_sep:
  assumes "c \<notin> set m"
  shows "occurrences m (a @ c # b) = occurrences m a + occurrences m b"
proof (induction a)
  case Nil
  have "prefix m (c # b) \<longleftrightarrow> m = []"
    using prefix_sep_iff [OF assms, of "[]" b] by simp
  then show ?case by simp
next
  case (Cons x a)
  have "prefix m (x # a @ c # b) \<longleftrightarrow> prefix m (x # a)"
    using prefix_sep_iff [OF assms, of "x # a" b] by simp
  with Cons show ?case by simp
qed

lemma occurrences_hd_absent:
  "m \<noteq> [] \<Longrightarrow> hd m \<notin> set s \<Longrightarrow> occurrences m s = 0"
  by (induction s) (auto simp: prefix_Cons neq_Nil_conv)

lemma occurrences_short:
  "length s < length m \<Longrightarrow> occurrences m s = 0"
proof (induction s)
  case Nil
  then show ?case by auto
next
  case (Cons c s)
  then have "\<not> prefix m (c # s)" by (auto dest: prefix_length_le)
  with Cons show ?case by simp
qed

lemma occurrences_self: "m \<noteq> [] \<Longrightarrow> occurrences m m = 1"
  by (cases m) (simp_all add: occurrences_short)

lemma occurrences_zero_iff: "occurrences m s = 0 \<longleftrightarrow> find_first m s = None"
  by (induction s) auto

lemma occurrences_closed_append:
  assumes "c \<notin> set m" and "m \<noteq> []" and "suffix [c] a"
  shows "occurrences m (a @ b) = occurrences m a + occurrences m b"
proof -
  from assms(3) obtain a' where a: "a = a' @ [c]" by (auto simp: suffix_def)
  have "occurrences m (a' @ c # b) = occurrences m a' + occurrences m b"
    by (rule occurrences_append_sep [OF assms(1)])
  moreover have "occurrences m (a' @ c # []) = occurrences m a' + occurrences m []"
    by (rule occurrences_append_sep [OF assms(1)])
  ultimately show ?thesis using a assms(2) by simp
qed



lemma occurrences_before_first:
  assumes "m \<noteq> []"
  shows "find_first m s = Some p \<Longrightarrow> occurrences m (take p s @ m) = 1"
proof (induction s arbitrary: p)
  case Nil
  with assms show ?case by simp
next
  case (Cons c s)
  show ?case
  proof (cases "prefix m (c # s)")
    case True
    with Cons.prems have "p = 0" by simp
    with assms show ?thesis by (simp add: occurrences_self)
  next
    case False
    with Cons.prems obtain j where j: "p = Suc j" "find_first m s = Some j" by auto
    from j(2) have "prefix m (drop j s)" by (simp add: find_first_Some_iff occurs_at_def)
    then obtain r where r: "drop j s = m @ r" by (auto simp: prefix_def)
    have "s = take j s @ m @ r" using r by (metis append_take_drop_id)
    then have "c # s = (c # take j s @ m) @ r" by simp
    then have "prefix (c # take j s @ m) (c # s)" by (metis prefixI)
    with False have "\<not> prefix m (c # take j s @ m)"
      using prefix_order.trans by blast
    with Cons.IH [OF j(2)] j show ?thesis by simp
  qed
qed

lemma start_marker_nonempty: "start_marker \<noteq> []"
  by (simp add: start_marker_list)

lemma start_marker_hd: "hd start_marker = 35"
  by (simp add: start_marker_list)

lemma start_marker_mem:
  "c \<in> set start_marker \<longleftrightarrow>
     c \<in> {35, 32, 129477, 84, 111, 114, 72, 105, 100, 101, 110, 83, 118, 99, 115, 116, 97, 117}"
  by (auto simp: start_marker_list)

lemma start_marker_not_prefix:
  "c \<noteq> 35 \<Longrightarrow> \<not> prefix start_marker (c # s)"
  "c \<noteq> 35 \<Longrightarrow> \<not> prefix start_marker (35 # c # s)"
  "c \<noteq> 32 \<Longrightarrow> \<not> prefix start_marker (35 # 35 # c # s)"
  "c \<noteq> 129477 \<Longrightarrow> \<not> prefix start_marker (35 # 35 # 32 # c # s)"
  by (simp_all add: start_marker_list)

lemma start_marker_sep:
  "c \<notin> set start_marker \<Longrightarrow>
   occurrences start_marker (a @ c # b) = occurrences start_marker a + occurrences start_marker b"
  by (rule occurrences_append_sep)

lemma start_marker_closed:
  "suffix [10] a \<Longrightarrow>
   occurrences start_marker (a @ b) = occurrences start_marker a + occurrences start_marker b"
  by (rule occurrences_closed_append [of 10]) (simp_all add: start_marker_mem start_marker_nonempty)

lemma str_of_nat_digits: "set (str_of_nat n) \<subseteq> {48..57}"
proof (induction n rule: str_of_nat.induct)
  case (1 n)
  show ?case
  proof (cases "n < 10")
    case True
    then show ?thesis by (subst str_of_nat.simps) auto
  next
    case False
    have "n mod 10 < 10" by simp
    then have "48 + n mod 10 \<in> {48..57}" by (simp del: mod_less_divisor)
    with False 1 show ?thesis by (subst str_of_nat.simps) auto
  qed
qed

lemma zfill_digits: "set s \<subseteq> {48..57} \<Longrightarrow> set (zfill w s) \<subseteq> {48..57}"
  by (auto simp: zfill_def)

lemma strftime_chars: "35 \<notin> set (strftime t)"
proof -
  have "35 \<notin> set (zfill w (str_of_nat n))" for w n
    using zfill_digits [OF str_of_nat_digits, of w n] by auto
  then show ?thesis by (simp add: strftime_def ascii_def)
qed

lemma start_marker_strftime: "occurrences start_marker (strftime t) = 0"
  by (rule occurrences_hd_absent) (simp_all add: start_marker_nonempty start_marker_hd strftime_chars)

lemma start_marker_str_of_nat: "occurrences start_marker (str_of_nat n) = 0"
proof (rule occurrences_hd_absent)
  show "start_marker \<noteq> []" by (rule start_marker_nonempty)
  show "hd start_marker \<notin> set (str_of_nat n)"
    using str_of_nat_digits [of n] by (auto simp: start_marker_hd)
qed

lemmas start_marker_count =
  start_marker_not_prefix start_marker_sep start_marker_mem start_marker_strftime
  start_marker_str_of_nat start_marker_nonempty ascii_def onion_def check_mark_def
  cross_mark_def

lemma section_head_start:
  "section_head ts n = start_marker @ 10 # 10 # ascii ''*Last checked: '' @ ts
     @ ascii ''*\<newline>\<newline>'' @ ascii ''### '' @ [check_mark] @ ascii '' Online Services (''
     @ str_of_nat n @ ascii '')\<newline>\<newline>''"
  by (simp add: section_head_def start_marker_def ascii_def)

lemma section_head_count:
  "occurrences start_marker (section_head (strftime t) n) = 1"
  unfolding section_head_start
  by (subst start_marker_sep)
     (simp_all add: start_marker_count occurrences_self)

lemma offline_head_count: "occurrences start_marker (offline_head n) = 0"
  unfolding offline_head_def
  by (simp add: start_marker_count)


lemma start_marker_entries:
  assumes "\<forall>x\<in>set xs. suffix [10] (f x)"
  shows "occurrences start_marker (concat (map f xs) @ rest)
           = sum_list (map (\<lambda>x. occurrences start_marker (f x)) xs)
             + occurrences start_marker rest"
  using assms
proof (induction xs)
  case Nil
  show ?case by simp
next
  case (Cons x xs)
  then have "suffix [10] (f x)" by simp
  from start_marker_closed [OF this, of "concat (map f xs) @ rest"] Cons show ?case by simp
qed

lemma online_entry_closed: "suffix [10] (online_entry s)"
  by (simp add: online_entry_def Let_def ascii_def suffix_def)

lemma offline_entry_closed: "suffix [10] (offline_entry s)"
  by (simp add: offline_entry_def Let_def ascii_def suffix_def)

lemma online_part_count:
  "occurrences start_marker (online_part on @ rest)
     = sum_list (map (\<lambda>x. occurrences start_marker (online_entry x)) on)
       + occurrences start_marker rest"
proof (cases "on = []")
  case True
  then show ?thesis by (simp add: online_part_def start_marker_count)
next
  case False
  then show ?thesis
    by (simp add: online_part_def start_marker_entries online_entry_closed)
qed

lemma offline_part_count:
  "occurrences start_marker (offline_part off @ rest)
     = sum_list (map (\<lambda>x. occurrences start_marker (offline_entry x)) off)
       + occurrences start_marker rest"
proof (cases "off = []")
  case True
  then show ?thesis by (simp add: offline_part_def start_marker_count)
next
  case False
  then show ?thesis
    by (simp add: offline_part_def start_marker_entries offline_entry_closed)
qed

lemma section_head_closed: "suffix [10] (section_head ts n)"
  by (simp add: section_head_def ascii_def suffix_def)

lemma offline_head_closed: "suffix [10] (offline_head n)"
  by (simp add: offline_head_def ascii_def suffix_def)

lemma status_content_count:
  "occurrences start_marker (status_content (strftime t) on off)
     = 1 + sum_list (map (\<lambda>x. occurrences start_marker (online_entry x)) on)
         + sum_list (map (\<lambda>x. occurrences start_marker (offline_entry x)) off)"
proof -
  have "occurrences start_marker end_marker = 0"
    by (simp add: end_marker_list start_marker_count)
  then show ?thesis
    unfolding status_content_parts
    by (simp add: start_marker_closed [OF section_head_closed]
        start_marker_closed [OF offline_head_closed] online_part_count offline_part_count
        section_head_count offline_head_count)
qed

lemma status_content_shape:
  "prefix (start_marker @ [10]) (status_content ts on off) \<and> suffix [10] (status_content ts on off)"
proof -
  have "prefix (start_marker @ [10]) (section_head ts (length on))"
    unfolding section_head_start by simp
  then have "prefix (start_marker @ [10]) (status_content ts on off)"
    unfolding status_content_parts by (rule prefix_prefix)
  moreover have "suffix [10] end_marker" by (simp add: end_marker_list suffix_def)
  then have "suffix [10] (status_content ts on off)"
    unfolding status_content_parts by (intro suffix_appendI)
  ultimately show ?thesis ..
qed

lemma splice_count:
  assumes "prefix (start_marker @ [10]) S" and "suffix [10] S"
  shows "occurrences start_marker (splice doc S)
           = occurrences start_marker S + occurrences start_marker (text_after_span doc)"
proof -
  from assms(1) obtain S2 where S2: "S = start_marker @ 10 # S2" by (auto simp: prefix_def)
  have nl: "10 \<notin> set start_marker" by (simp add: start_marker_mem)
  have occS: "occurrences start_marker S = 1 + occurrences start_marker S2"
    unfolding S2 by (simp add: start_marker_sep [OF nl] occurrences_self start_marker_nonempty)
  show ?thesis
  proof (cases "old_span doc")
    case None
    then have f: "find_first start_marker doc = None"
      by (auto simp: old_span_def split: option.splits)
    then have "occurrences start_marker doc = 0" by (simp add: occurrences_zero_iff)
    with None f show ?thesis
      by (simp add: splice_absent text_after_span_def start_marker_sep [OF nl]
          start_marker_nonempty)
  next
    case (Some ab)
    obtain a b where ab: "ab = (a, b)" by (cases ab)
    from Some ab have f: "find_first start_marker doc = Some a"
      by (auto simp: old_span_def split: option.splits)
    have "suffix [10] (take a doc @ S)" using assms(2) by (rule suffix_appendI)
    then have "occurrences start_marker ((take a doc @ S) @ drop b doc)
        = occurrences start_marker (take a doc @ S) + occurrences start_marker (drop b doc)"
      by (rule start_marker_closed)
    moreover have "occurrences start_marker (take a doc @ S) = 1 + occurrences start_marker S2"
      using start_marker_sep [OF nl, of "take a doc @ start_marker" S2]
        occurrences_before_first [OF start_marker_nonempty f]
      by (simp add: S2)
    ultimately show ?thesis
      using Some ab occS by (simp add: splice_old_span text_after_span_def)
  qed
qed



lemma field_clean:
  assumes "case service k of Some (Str s) \<Rightarrow> \<not> contains s start_marker | _ \<Rightarrow> True"
    and "occurrences start_marker d = 0"
  shows "occurrences start_marker (fmt (dict_get service k (Str d))) = 0"
proof (cases "service k")
  case None
  with assms(2) show ?thesis by (simp add: dict_get_def fmt_def)
next
  case (Some v)
  show ?thesis
  proof (cases v)
    case (Str s)
    with Some assms(1) show ?thesis
      by (simp add: dict_get_def fmt_def contains_def occurrences_zero_iff)
  next
    case NoneV
    with Some show ?thesis by (simp add: dict_get_def fmt_def start_marker_count)
  qed
qed

lemma online_entry_clean:
  assumes "marker_free online_columns service"
  shows "occurrences start_marker (online_entry service) = 0"
proof -
  define name where "name = fmt (dict_get service (ascii ''name'') (Str (ascii ''Unknown'')))"
  define url where "url = fmt (dict_get service (ascii ''url'') (Str []))"
  define desc where "desc = fmt (dict_get service (ascii ''description'') (Str []))"
  have u: "occurrences start_marker (ascii ''Unknown'') = 0" by (simp add: start_marker_count)
  have e: "occurrences start_marker [] = 0" by (simp add: start_marker_nonempty)
  have n: "occurrences start_marker name = 0"
    unfolding name_def using assms by (intro field_clean u) (simp add: marker_free_def online_columns_def offline_columns_def)
  have l: "occurrences start_marker url = 0"
    unfolding url_def using assms by (intro field_clean e) (simp add: marker_free_def online_columns_def offline_columns_def)
  have d: "occurrences start_marker desc = 0"
    unfolding desc_def using assms by (intro field_clean e) (simp add: marker_free_def online_columns_def offline_columns_def)
  have "online_entry service =
      ascii ''- **'' @ name @ ascii ''**\<newline>'' @ ascii ''  - URL: `'' @ url @ ascii ''`\<newline>''
      @ (if truthy (dict_get service (ascii ''description'') (Str []))
         then ascii ''  - '' @ desc @ ascii ''\<newline>'' else []) @ ascii ''\<newline>''"
    by (simp add: online_entry_def Let_def name_def url_def desc_def)
  then show ?thesis by (simp add: start_marker_count n l d)
qed

lemma offline_entry_clean:
  assumes "marker_free offline_columns service"
  shows "occurrences start_marker (offline_entry service) = 0"
proof -
  define name where "name = fmt (dict_get service (ascii ''name'') (Str (ascii ''Unknown'')))"
  define url where "url = fmt (dict_get service (ascii ''url'') (Str []))"
  have u: "occurrences start_marker (ascii ''Unknown'') = 0" by (simp add: start_marker_count)
  have e: "occurrences start_marker [] = 0" by (simp add: start_marker_nonempty)
  have n: "occurrences start_marker name = 0"
    unfolding name_def using assms by (intro field_clean u) (simp add: marker_free_def online_columns_def offline_columns_def)
  have l: "occurrences start_marker url = 0"
    unfolding url_def using assms by (intro field_clean e) (simp add: marker_free_def online_columns_def offline_columns_def)
  have "offline_entry service = ascii ''- **'' @ name @ ascii ''** - `'' @ url @ ascii ''`\<newline>''"
    by (simp add: offline_entry_def Let_def name_def url_def)
  then show ?thesis by (simp add: start_marker_count n l)
qed

lemma splice_status_count:
  "occurrences start_marker (splice doc (status_content (strftime t) on off))
     = 1 + sum_list (map (\<lambda>x. occurrences start_marker (online_entry x)) on)
         + sum_list (map (\<lambda>x. occurrences start_marker (offline_entry x)) off)
         + occurrences start_marker (text_after_span doc)"
  using status_content_shape [of "strftime t" on off]
  by (simp add: splice_count status_content_count)

lemma entries_clean:
  "list_all (marker_free online_columns) on \<Longrightarrow>
     sum_list (map (\<lambda>x. occurrences start_marker (online_entry x)) on) = 0"
  "list_all (marker_free offline_columns) off \<Longrightarrow>
     sum_list (map (\<lambda>x. occurrences start_marker (offline_entry x)) off) = 0"
  by (simp_all add: list_all_iff online_entry_clean offline_entry_clean)

lemma marker_named_entry: "occurrences start_marker (online_entry marker_named) = 1"
proof -
  have "online_entry marker_named
      = ascii ''- **'' @ start_marker @ ascii ''**\<newline>  - URL: `'' @ ascii ''`\<newline>\<newline>''"
    by (simp add: online_entry_def marker_named_def dict_get_def fmt_def truthy_def Let_def
        ascii_def)
  then show ?thesis
    by (simp add: start_marker_count occurrences_self)
qed

lemma newline_char: "ascii ''\<newline>'' = [10]"
  by (simp add: ascii_def)

lemma text_after_nil: "text_after_span [] = []"
  by (simp add: text_after_span_def old_span_def split: option.splits)

lemma text_after_two_sections: "text_after_span two_sections_doc = start_marker"
  by (simp add: text_after_span_def old_span_def two_sections_doc_def start_marker_list
      end_marker_list)

lemma alpha_beta_clean:
  "list_all (marker_free online_columns) [alpha] \<and> list_all (marker_free offline_columns) [beta]"
  by (simp add: marker_free_def online_columns_def offline_columns_def alpha_def beta_def
      contains_def start_marker_list ascii_def)

lemma example_doc_after: "text_after_span example_doc = ascii ''Outro''"
  by (simp add: text_after_span_def old_span_def example_doc_start example_doc_end
      end_marker_list) (simp add: example_doc_def start_marker_list end_marker_list ascii_def)

lemma end_marker_length: "length end_marker = 5"
  by (simp add: end_marker_list)

lemma example_doc_span: "old_span example_doc = Some (6, 46)"
  by (simp add: old_span_def example_doc_start example_doc_end end_marker_length)

lemma two_sections_span: "old_span two_sections_doc = Some (0, 36)"
  by (simp add: old_span_def two_sections_doc_def start_marker_list end_marker_list)

text \<open>
  Claim C3, as stated, fails. A service whose name is the start marker gives a document
  with two occurrences of the start marker, even from an empty document; and a document
  that holds a second start marker after its old section keeps it.
\<close>

theorem one_section_counterexample:
  "occurrences start_marker
     (splice [] (status_content (strftime (utcnow example_world)) [marker_named] [])) = 2
   \<and> occurrences start_marker
     (splice two_sections_doc (status_content (strftime (utcnow example_world)) [] [])) = 2"
  by (simp add: splice_status_count marker_named_entry text_after_nil text_after_two_sections
      occurrences_self start_marker_nonempty)

text \<open>
  Claim C3, amended. For every prior document and every input, the text before and after
  the span of the old section is kept as it was: the result is the text before the span,
  the new section and the text after the span, or, without an old section, the whole
  document, a line feed and the new section. When moreover no rendered column of the
  services (name, url and description of an online service, name and url of an offline
  one) holds the start marker, and the text of the prior document after the span of its
  old section holds none, the document produced holds the start marker exactly once.
\<close>

theorem splice_one_section:
  "splice doc (status_content (strftime t) online offline)
     = (case old_span doc of
          None \<Rightarrow> doc @ ascii ''\<newline>'' @ status_content (strftime t) online offline
        | Some (a, b) \<Rightarrow>
            take a doc @ status_content (strftime t) online offline @ drop b doc)
   \<and> (list_all (marker_free online_columns) online
        \<and> list_all (marker_free offline_columns) offline
        \<and> occurrences start_marker (text_after_span doc) = 0
      \<longrightarrow> occurrences start_marker
            (splice doc (status_content (strftime t) online offline)) = 1)"
proof (intro conjI impI)
  show "splice doc (status_content (strftime t) online offline)
     = (case old_span doc of
          None \<Rightarrow> doc @ ascii ''\<newline>'' @ status_content (strftime t) online offline
        | Some (a, b) \<Rightarrow>
            take a doc @ status_content (strftime t) online offline @ drop b doc)"
    unfolding newline_char by (rule splice_old_span)
next
  assume "list_all (marker_free online_columns) online
        \<and> list_all (marker_free offline_columns) offline
        \<and> occurrences start_marker (text_after_span doc) = 0"
  then show "occurrences start_marker
            (splice doc (status_content (strftime t) online offline)) = 1"
    by (simp add: splice_status_count entries_clean)
qed

theorem splice_one_section_witness:
  "list_all (marker_free online_columns) [alpha]
   \<and> list_all (marker_free offline_columns) [beta]
   \<and> occurrences start_marker (text_after_span example_doc) = 0
   \<and> occurrences start_marker
        (splice example_doc (status_content (strftime (utcnow example_world)) [alpha] [beta])) = 1
   \<and> splice example_doc (status_content (strftime (utcnow example_world)) [alpha] [beta])
      = take 6 example_doc @ status_content (strftime (utcnow example_world)) [alpha] [beta]
        @ drop 46 example_doc
   \<and> splice two_sections_doc (status_content (strftime (utcnow example_world)) [marker_named] [])
      = status_content (strftime (utcnow example_world)) [marker_named] [] @ start_marker"
proof -
  have c: "occurrences start_marker (text_after_span example_doc) = 0"
    by (simp add: example_doc_after start_marker_count)
  from alpha_beta_clean have a: "list_all (marker_free online_columns) [alpha]"
    and b: "list_all (marker_free offline_columns) [beta]" by simp_all
  note t = splice_one_section [where online = "[alpha]" and offline = "[beta]"
      and doc = example_doc and t = "utcnow example_world"]
  from t a b c have n: "occurrences start_marker
        (splice example_doc (status_content (strftime (utcnow example_world)) [alpha] [beta])) = 1"
    by blast
  from t have "splice example_doc (status_content (strftime (utcnow example_world)) [alpha] [beta])
      = (case old_span example_doc of
           None \<Rightarrow> example_doc @ ascii ''\<newline>''
                    @ status_content (strftime (utcnow example_world)) [alpha] [beta]
         | Some (a, b) \<Rightarrow>
             take a example_doc @ status_content (strftime (utcnow example_world)) [alpha] [beta]
             @ drop b example_doc)"
    by (rule conjunct1)
  also have "\<dots> = take 6 example_doc
      @ status_content (strftime (utcnow example_world)) [alpha] [beta] @ drop 46 example_doc"
    by (simp add: example_doc_span)
  finally have p: "splice example_doc (status_content (strftime (utcnow example_world)) [alpha] [beta])
      = take 6 example_doc @ status_content (strftime (utcnow example_world)) [alpha] [beta]
        @ drop 46 example_doc" .
  from splice_one_section [where online = "[marker_named]" and offline = "[]"
      and doc = two_sections_doc and t = "utcnow example_world"]
  have "splice two_sections_doc (status_content (strftime (utcnow example_world)) [marker_named] [])
      = (case old_span two_sections_doc of
           None \<Rightarrow> two_sections_doc @ ascii ''\<newline>''
                    @ status_content (strftime (utcnow example_world)) [marker_named] []
         | Some (a, b) \<Rightarrow>
             take a two_sections_doc
             @ status_content (strftime (utcnow example_world)) [marker_named] []
             @ drop b two_sections_doc)"
    by (rule conjunct1)
  also have "\<dots> = status_content (strftime (utcnow example_world)) [marker_named] []
      @ start_marker"
    by (simp add: two_sections_span) (simp add: two_sections_doc_def start_marker_list
        end_marker_list)
  finally have q: "splice two_sections_doc
       (status_content (strftime (utcnow example_world)) [marker_named] [])
      = status_content (strftime (utcnow example_world)) [marker_named] [] @ start_marker" .
  from a b c n p q show ?thesis by blast
qed

section \<open>A second run\<close>

lemma occurs_at_iff_split:
  "occurs_at sub s i \<longleftrightarrow> (\<exists>ps ss. s = ps @ sub @ ss \<and> i = length ps)"
proof
  assume o: "occurs_at sub s i"
  then obtain ss where "drop i s = sub @ ss" by (auto simp: occurs_at_def prefix_def)
  then have "s = take i s @ sub @ ss" by (metis append_take_drop_id)
  moreover have "length (take i s) = i" using o by (simp add: occurs_at_def)
  ultimately show "\<exists>ps ss. s = ps @ sub @ ss \<and> i = length ps" by metis
next
  assume "\<exists>ps ss. s = ps @ sub @ ss \<and> i = length ps"
  then show "occurs_at sub s i" by (auto simp: occurs_at_def)
qed

lemma contains_iff_sublist: "contains s sub \<longleftrightarrow> sublist sub s"
  by (auto simp: contains_def find_first_None_iff occurs_at_iff_split sublist_def)
































end
